theory Spec2Isabelle
  imports Complex_Main "HOL-Library.AList"
begin

section \<open>JavaScript values\<close>

text \<open>
  The class \<open>Group<K, V>\<close> extends the native \<open>Map\<close>. Its methods receive arbitrary
  JavaScript values at run time (the type annotations are erased), and several of them
  test the run-time type of an argument with \<open>typeof\<close>. Values are therefore a datatype.
  A number is a finite value, taken as an exact rational, or one of \<open>NaN\<close>, \<open>Infinity\<close>,
  \<open>-Infinity\<close>. The payload of a function value is the HOL function that models it.
\<close>

datatype jsnum = Finite rat | NaN | PosInf | NegInf

datatype 'f jsvalue =
    Undefined
  | Null
  | Boolean bool
  | Number jsnum
  | String string
  | Function 'f
  | GroupObject nat
  | OtherObject

fun typeof :: "'f jsvalue \<Rightarrow> string" where
  "typeof Undefined = ''undefined''"
| "typeof Null = ''object''"
| "typeof (Boolean b) = ''boolean''"
| "typeof (Number n) = ''number''"
| "typeof (String s) = ''string''"
| "typeof (Function f) = ''function''"
| "typeof (GroupObject r) = ''object''"
| "typeof OtherObject = ''object''"

text \<open>\<open>Number.isInteger\<close>: a number that is finite and has no fractional part.\<close>

fun isInteger :: "'f jsvalue \<Rightarrow> bool" where
  "isInteger (Number (Finite q)) = (of_int \<lfloor>q\<rfloor> = q)"
| "isInteger _ = False"

text \<open>The comparison \<open>amount > 1\<close> on numbers: false for \<open>NaN\<close>.\<close>

fun greater_than_one :: "jsnum \<Rightarrow> bool" where
  "greater_than_one (Finite q) = (1 < q)"
| "greater_than_one PosInf = True"
| "greater_than_one NaN = False"
| "greater_than_one NegInf = False"

text \<open>\<open>values.length - amount\<close>, the left operand being an array length.\<close>

fun length_minus :: "nat \<Rightarrow> jsnum \<Rightarrow> jsnum" where
  "length_minus len (Finite q) = Finite (of_nat len - q)"
| "length_minus len NaN = NaN"
| "length_minus len PosInf = NegInf"
| "length_minus len NegInf = PosInf"

subsection \<open>Arrays: index, \<open>at\<close>, \<open>slice\<close>\<close>

datatype intinf = MinusInfinity | Integer int | PlusInfinity

text \<open>The abstract operation \<open>ToIntegerOrInfinity\<close>: \<open>NaN\<close> is 0, a finite number is
  truncated toward zero.\<close>

fun ToIntegerOrInfinity :: "jsnum \<Rightarrow> intinf" where
  "ToIntegerOrInfinity NaN = Integer 0"
| "ToIntegerOrInfinity PosInf = PlusInfinity"
| "ToIntegerOrInfinity NegInf = MinusInfinity"
| "ToIntegerOrInfinity (Finite q) = Integer (if 0 \<le> q then \<lfloor>q\<rfloor> else \<lceil>q\<rceil>)"

text \<open>\<open>xs[i]\<close> for an integer \<open>i\<close>: \<open>undefined\<close> (here \<open>None\<close>) out of range.\<close>

definition array_index :: "'a list \<Rightarrow> int \<Rightarrow> 'a option" where
  "array_index xs i = (if 0 \<le> i \<and> i < int (length xs) then Some (xs ! nat i) else None)"

text \<open>\<open>Array.prototype.at\<close>: a negative relative index counts from the end.\<close>

definition array_at :: "'a list \<Rightarrow> jsnum \<Rightarrow> 'a option" where
  "array_at xs index =
     (case ToIntegerOrInfinity index of
        Integer r \<Rightarrow>
          (let len = int (length xs);
               k = (if 0 \<le> r then r else len + r)
           in if k < 0 \<or> len \<le> k then None else Some (xs ! nat k))
      | MinusInfinity \<Rightarrow> None
      | PlusInfinity \<Rightarrow> None)"

text \<open>The clamping of a relative start or end index in \<open>Array.prototype.slice\<close>.\<close>

fun relative_index :: "nat \<Rightarrow> intinf \<Rightarrow> nat" where
  "relative_index len MinusInfinity = 0"
| "relative_index len (Integer r) =
     (if r < 0 then nat (max (int len + r) 0) else nat (min r (int len)))"
| "relative_index len PlusInfinity = len"

text \<open>\<open>Array.prototype.slice(start, end)\<close>; an omitted \<open>end\<close> is the length.\<close>

definition array_slice :: "'a list \<Rightarrow> jsnum \<Rightarrow> jsnum option \<Rightarrow> 'a list" where
  "array_slice xs start end =
     (let len = length xs;
          k = relative_index len (ToIntegerOrInfinity start);
          final = (case end of None \<Rightarrow> len
                   | Some e \<Rightarrow> relative_index len (ToIntegerOrInfinity e))
      in take (final - k) (drop k xs))"

section \<open>The native Map\<close>

text \<open>
  The data of a \<open>Map\<close> is the list of its entries in insertion order. \<open>delete\<close> empties
  the slot of an entry and leaves it in the list, \<open>set\<close> overwrites the value of a
  present key in its slot and appends a slot for a new key, and an iterator walks the
  slots by index, skipping the empty ones. This is what lets a loop over a map delete
  from it while it runs.
\<close>

type_synonym ('k, 'v) mapdata = "('k \<times> 'v) option list"

fun map_entries :: "('k, 'v) mapdata \<Rightarrow> ('k \<times> 'v) list" where
  "map_entries [] = []"
| "map_entries (None # d) = map_entries d"
| "map_entries (Some e # d) = e # map_entries d"

definition map_keys :: "('k, 'v) mapdata \<Rightarrow> 'k list" where
  "map_keys d = map fst (map_entries d)"

definition map_values :: "('k, 'v) mapdata \<Rightarrow> 'v list" where
  "map_values d = map snd (map_entries d)"

definition map_size :: "('k, 'v) mapdata \<Rightarrow> nat" where
  "map_size d = length (map_entries d)"

fun map_has :: "'k \<Rightarrow> ('k, 'v) mapdata \<Rightarrow> bool" where
  "map_has k [] = False"
| "map_has k (None # d) = map_has k d"
| "map_has k (Some (k', v') # d) = (if k' = k then True else map_has k d)"

fun map_get :: "'k \<Rightarrow> ('k, 'v) mapdata \<Rightarrow> 'v option" where
  "map_get k [] = None"
| "map_get k (None # d) = map_get k d"
| "map_get k (Some (k', v') # d) = (if k' = k then Some v' else map_get k d)"

fun map_set :: "'k \<Rightarrow> 'v \<Rightarrow> ('k, 'v) mapdata \<Rightarrow> ('k, 'v) mapdata" where
  "map_set k v [] = [Some (k, v)]"
| "map_set k v (None # d) = None # map_set k v d"
| "map_set k v (Some (k', v') # d) =
     (if k' = k then Some (k', v) # d else Some (k', v') # map_set k v d)"

fun map_delete :: "'k \<Rightarrow> ('k, 'v) mapdata \<Rightarrow> ('k, 'v) mapdata" where
  "map_delete k [] = []"
| "map_delete k (None # d) = None # map_delete k d"
| "map_delete k (Some (k', v') # d) =
     (if k' = k then None # d else Some (k', v') # map_delete k d)"

text \<open>The constructor \<open>new Map(iterable)\<close> sets the pairs one after the other.\<close>

definition map_new :: "('k \<times> 'v) list \<Rightarrow> ('k, 'v) mapdata" where
  "map_new iterable = foldl (\<lambda>d (k, v). map_set k v d) [] iterable"

text \<open>The keys of a map are unique: every map built by \<open>set\<close> and \<open>delete\<close> is so.\<close>

definition map_wf :: "('k, 'v) mapdata \<Rightarrow> bool" where
  "map_wf d = distinct (map_keys d)"

section \<open>Objects\<close>

text \<open>
  Groups are objects: a method mutates its receiver, returns it (\<open>return this\<close>) or
  allocates a new group. The store is the list of the maps of all allocated groups, and a
  reference is an index into it.
\<close>

type_synonym ('k, 'v) heap = "('k, 'v) mapdata list"

definition new_Group :: "('k, 'v) mapdata \<Rightarrow> ('k, 'v) heap \<Rightarrow> nat \<times> ('k, 'v) heap" where
  "new_Group d h = (length h, h @ [d])"

text \<open>The error class \<open>GroupError\<close>: a message and the option \<open>cause\<close>.\<close>

datatype 'c error = GroupError string 'c

section \<open>The methods of Group that read values by position\<close>

text \<open>\<open>first\<close> and \<open>last\<close> return one value (or \<open>undefined\<close>) or an array of values.\<close>

datatype 'v one_or_many = One "'v option" | Many "'v list"

definition first :: "'f jsvalue \<Rightarrow> nat \<Rightarrow> ('k, 'v) heap \<Rightarrow> 'v one_or_many" where
  "first amount this h =
     (let values = map_values (h ! this)
      in case amount of
           Number n \<Rightarrow>
             (if greater_than_one n then Many (array_slice values (Finite 0) (Some n))
              else One (array_index values 0))
         | _ \<Rightarrow> One (array_index values 0))"

definition last_group :: "'f jsvalue \<Rightarrow> nat \<Rightarrow> ('k, 'v) heap \<Rightarrow> 'v one_or_many" where
  "last_group amount this h =
     (let values = map_values (h ! this)
      in case amount of
           Number n \<Rightarrow>
             (if greater_than_one n
              then Many (array_slice values (length_minus (length values) n) None)
              else One (array_index values (int (length values) - 1)))
         | _ \<Rightarrow> One (array_index values (int (length values) - 1)))"

text \<open>\<open>at\<close> and \<open>keyAt\<close> of the group with the parameterised \<open>first\<close> and \<open>last\<close>: the
  guard is \<open>typeof index !== 'number'\<close>.\<close>

definition at_group :: "'f jsvalue \<Rightarrow> nat \<Rightarrow> ('k, 'v) heap \<Rightarrow> 'f jsvalue error + 'v option" where
  "at_group index this h =
     (case index of
        Number n \<Rightarrow> Inr (array_at (map_values (h ! this)) n)
      | _ \<Rightarrow> Inl (GroupError ''Invalid index parameter. Expected a number.'' index))"

definition keyAt :: "'f jsvalue \<Rightarrow> nat \<Rightarrow> ('k, 'v) heap \<Rightarrow> 'f jsvalue error + 'k option" where
  "keyAt index this h =
     (case index of
        Number n \<Rightarrow> Inr (array_at (map_keys (h ! this)) n)
      | _ \<Rightarrow> Inl (GroupError ''Invalid index parameter. Expected a number.'' index))"

text \<open>\<open>at\<close> and \<open>keyAt\<close> of \<open>src/group.ts\<close>: the guard is \<open>!Number.isInteger(index)\<close>.\<close>

definition at_integer :: "'f jsvalue \<Rightarrow> nat \<Rightarrow> ('k, 'v) heap \<Rightarrow> 'f jsvalue error + 'v option" where
  "at_integer index this h =
     (if \<not> isInteger index
      then Inl (GroupError ''Invalid index parameter. Expected an integer number.'' index)
      else case index of
             Number n \<Rightarrow> Inr (array_at (map_values (h ! this)) n)
           | _ \<Rightarrow> Inl (GroupError ''Invalid index parameter. Expected an integer number.'' index))"

definition keyAt_integer :: "'f jsvalue \<Rightarrow> nat \<Rightarrow> ('k, 'v) heap \<Rightarrow> 'f jsvalue error + 'k option" where
  "keyAt_integer index this h =
     (if \<not> isInteger index
      then Inl (GroupError ''Invalid index parameter. Expected an integer number.'' index)
      else case index of
             Number n \<Rightarrow> Inr (array_at (map_keys (h ! this)) n)
           | _ \<Rightarrow> Inl (GroupError ''Invalid index parameter. Expected an integer number.'' index))"

section \<open>The methods of Group that take a callback\<close>

text \<open>
  A callback is called as \<open>fn(value, key, this)\<close>. The third argument is the group
  itself, a mutable object: what the callback can read of it is its entries at the time
  of the call. Callbacks here do not write to the group. The callback of \<open>each\<close> and the
  generator of \<open>fallback\<close> are called for their effect: they transform a state \<open>'w\<close> of
  their own, which records every call. Every method returns its result (or the error it
  raises) and the store it leaves.
\<close>

type_synonym ('k, 'v) entries = "('k \<times> 'v) list"

type_synonym ('k, 'v, 'r) callback = "'v \<Rightarrow> 'k \<Rightarrow> ('k, 'v) entries \<Rightarrow> 'r"

text \<open>A callback is pure when its result is determined by the value and the key it is
  given: it does not depend on the state of the mutable group.\<close>

definition pure_callback :: "('k, 'v, 'r) callback \<Rightarrow> bool" where
  "pure_callback f \<longleftrightarrow> (\<forall>v k g g'. f v k g = f v k g')"

fun each_loop ::
  "('k, 'v, 'w \<Rightarrow> 'w) callback \<Rightarrow> ('k, 'v) entries \<Rightarrow> ('k, 'v) entries \<Rightarrow> 'w \<Rightarrow> 'w" where
  "each_loop f g [] w = w"
| "each_loop f g ((key, val) # es) w = each_loop f g es (f val key g w)"

definition each ::
  "('k, 'v, 'w \<Rightarrow> 'w) callback jsvalue \<Rightarrow> nat \<Rightarrow> ('k, 'v) heap \<Rightarrow> 'w
   \<Rightarrow> (('k, 'v, 'w \<Rightarrow> 'w) callback jsvalue error + nat) \<times> ('k, 'v) heap \<times> 'w" where
  "each fn this h w =
     (case fn of
        Function f \<Rightarrow>
          (let g = map_entries (h ! this) in (Inr this, h, each_loop f g g w))
      | _ \<Rightarrow> (Inl (GroupError ''fn parameter must be a valid function.'' fn), h, w))"

fun find_loop ::
  "('k, 'v, bool) callback \<Rightarrow> ('k, 'v) entries \<Rightarrow> ('k, 'v) entries \<Rightarrow> 'v option" where
  "find_loop f g [] = None"
| "find_loop f g ((key, val) # es) = (if f val key g then Some val else find_loop f g es)"

definition find_group ::
  "('k, 'v, bool) callback jsvalue \<Rightarrow> nat \<Rightarrow> ('k, 'v) heap
   \<Rightarrow> (('k, 'v, bool) callback jsvalue error + 'v option) \<times> ('k, 'v) heap" where
  "find_group fn this h =
     (case fn of
        Function f \<Rightarrow> (let g = map_entries (h ! this) in (Inr (find_loop f g g), h))
      | _ \<Rightarrow> (Inl (GroupError ''fn parameter must be a valid function.'' fn), h))"

text \<open>\<open>filter\<close> and \<open>map\<close> build a new group with \<open>set\<close> and return it: the result is the
  map of the new object, which \<open>new_Group\<close> puts into the store. (The new group of \<open>map\<close>
  has values of another type than those of the store of the receiver.)\<close>

fun filter_loop ::
  "('k, 'v, bool) callback \<Rightarrow> ('k, 'v) entries \<Rightarrow> ('k, 'v) entries
   \<Rightarrow> ('k, 'v) mapdata \<Rightarrow> ('k, 'v) mapdata" where
  "filter_loop f g [] filteredGroup = filteredGroup"
| "filter_loop f g ((key, val) # es) filteredGroup =
     filter_loop f g es (if f val key g then map_set key val filteredGroup else filteredGroup)"

definition filter_group ::
  "('k, 'v, bool) callback jsvalue \<Rightarrow> nat \<Rightarrow> ('k, 'v) heap
   \<Rightarrow> (('k, 'v, bool) callback jsvalue error + ('k, 'v) mapdata) \<times> ('k, 'v) heap" where
  "filter_group fn this h =
     (case fn of
        Function f \<Rightarrow> (let g = map_entries (h ! this) in (Inr (filter_loop f g g []), h))
      | _ \<Rightarrow> (Inl (GroupError ''fn parameter must be a valid function.'' fn), h))"

fun map_loop ::
  "('k, 'v, 'u) callback \<Rightarrow> ('k, 'v) entries \<Rightarrow> ('k, 'v) entries
   \<Rightarrow> ('k, 'u) mapdata \<Rightarrow> ('k, 'u) mapdata" where
  "map_loop f g [] mappedMap = mappedMap"
| "map_loop f g ((key, val) # es) mappedMap =
     (let mappedValue = f val key g in map_loop f g es (map_set key mappedValue mappedMap))"

definition map_group ::
  "('k, 'v, 'u) callback jsvalue \<Rightarrow> nat \<Rightarrow> ('k, 'v) heap
   \<Rightarrow> (('k, 'v, 'u) callback jsvalue error + ('k, 'u) mapdata) \<times> ('k, 'v) heap" where
  "map_group fn this h =
     (case fn of
        Function f \<Rightarrow> (let g = map_entries (h ! this) in (Inr (map_loop f g g []), h))
      | _ \<Rightarrow> (Inl (GroupError ''fn parameter must be a valid function.'' fn), h))"

fun findKey_loop ::
  "('k, 'v, bool) callback \<Rightarrow> ('k, 'v) entries \<Rightarrow> ('k, 'v) entries \<Rightarrow> 'k option" where
  "findKey_loop f g [] = None"
| "findKey_loop f g ((key, val) # es) = (if f val key g then Some key else findKey_loop f g es)"

definition findKey ::
  "('k, 'v, bool) callback jsvalue \<Rightarrow> nat \<Rightarrow> ('k, 'v) heap
   \<Rightarrow> (('k, 'v, bool) callback jsvalue error + 'k option) \<times> ('k, 'v) heap" where
  "findKey fn this h =
     (case fn of
        Function f \<Rightarrow> (let g = map_entries (h ! this) in (Inr (findKey_loop f g g), h))
      | _ \<Rightarrow> (Inl (GroupError ''fn parameter must be a valid function.'' fn), h))"

fun every_loop ::
  "('k, 'v, bool) callback \<Rightarrow> ('k, 'v) entries \<Rightarrow> ('k, 'v) entries \<Rightarrow> bool" where
  "every_loop f g [] = True"
| "every_loop f g ((key, val) # es) = (if \<not> f val key g then False else every_loop f g es)"

definition every ::
  "('k, 'v, bool) callback jsvalue \<Rightarrow> nat \<Rightarrow> ('k, 'v) heap
   \<Rightarrow> (('k, 'v, bool) callback jsvalue error + bool) \<times> ('k, 'v) heap" where
  "every fn this h =
     (case fn of
        Function f \<Rightarrow> (let g = map_entries (h ! this) in (Inr (every_loop f g g), h))
      | _ \<Rightarrow> (Inl (GroupError ''fn parameter must be a valid function.'' fn), h))"

fun some_loop ::
  "('k, 'v, bool) callback \<Rightarrow> ('k, 'v) entries \<Rightarrow> ('k, 'v) entries \<Rightarrow> bool" where
  "some_loop f g [] = False"
| "some_loop f g ((key, val) # es) = (if f val key g then True else some_loop f g es)"

definition some ::
  "('k, 'v, bool) callback jsvalue \<Rightarrow> nat \<Rightarrow> ('k, 'v) heap
   \<Rightarrow> (('k, 'v, bool) callback jsvalue error + bool) \<times> ('k, 'v) heap" where
  "some fn this h =
     (case fn of
        Function f \<Rightarrow> (let g = map_entries (h ! this) in (Inr (some_loop f g g), h))
      | _ \<Rightarrow> (Inl (GroupError ''fn parameter must be a valid function.'' fn), h))"

section \<open>The methods of Group that write\<close>

text \<open>
  \<open>sweep\<close> iterates over the group it deletes from. The loop is the iterator's: slot
  \<open>i\<close> of the current data, then slot \<open>i + 1\<close>; the callback sees the entries that are
  left at the time of its call.
\<close>

lemma length_map_delete: "length (map_delete k d) = length d"
  by (induction k d rule: map_delete.induct) auto

function sweep_loop ::
  "('k, 'v, bool) callback \<Rightarrow> nat \<Rightarrow> ('k, 'v) mapdata \<Rightarrow> ('k, 'v) mapdata" where
  "sweep_loop f i d =
     (if i < length d
      then (case d ! i of
              None \<Rightarrow> sweep_loop f (Suc i) d
            | Some (key, val) \<Rightarrow>
                sweep_loop f (Suc i) (if f val key (map_entries d) then map_delete key d else d))
      else d)"
  by pat_completeness auto
termination
  by (relation "measure (\<lambda>(f, i, d). length d - i)") (auto simp: length_map_delete)

declare sweep_loop.simps [simp del]

definition sweep ::
  "('k, 'v, bool) callback jsvalue \<Rightarrow> nat \<Rightarrow> ('k, 'v) heap
   \<Rightarrow> (('k, 'v, bool) callback jsvalue error + nat) \<times> ('k, 'v) heap" where
  "sweep fn this h =
     (case fn of
        Function f \<Rightarrow> (Inr this, h[this := sweep_loop f 0 (h ! this)])
      | _ \<Rightarrow> (Inl (GroupError ''fn parameter must be a valid function.'' fn), h))"

text \<open>\<open>fallback\<close>: \<open>has\<close>, then \<open>get\<close>, or the generator, \<open>set\<close> and \<open>get\<close>.\<close>

definition fallback ::
  "'k \<Rightarrow> ('k \<Rightarrow> ('k, 'v) entries \<Rightarrow> 'w \<Rightarrow> 'v \<times> 'w) jsvalue \<Rightarrow> nat \<Rightarrow> ('k, 'v) heap \<Rightarrow> 'w
   \<Rightarrow> ((('k \<Rightarrow> ('k, 'v) entries \<Rightarrow> 'w \<Rightarrow> 'v \<times> 'w) jsvalue) error + 'v option) \<times> ('k, 'v) heap \<times> 'w" where
  "fallback key generator this h w =
     (case generator of
        Function gen \<Rightarrow>
          (if map_has key (h ! this) then (Inr (map_get key (h ! this)), h, w)
           else (let (val, w') = gen key (map_entries (h ! this)) w;
                     h' = h[this := map_set key val (h ! this)]
                 in (Inr (map_get key (h' ! this)), h', w')))
      | _ \<Rightarrow> (Inl (GroupError ''generator parameter must be a valid function'' generator), h, w))"

text \<open>
  \<open>concact\<close> iterates over each argument group and sets its entries in the receiver.
  An argument may be the receiver itself, so the inner loop reads the store at every
  step.
\<close>

lemma length_map_set_present: "map_has k d \<Longrightarrow> length (map_set k v d) = length d"
  by (induction k v d rule: map_set.induct) auto

lemma map_has_nth: "i < length d \<Longrightarrow> d ! i = Some (k, v) \<Longrightarrow> map_has k d"
proof (induction k d arbitrary: i rule: map_has.induct)
  case (1 k)
  then show ?case by simp
next
  case (2 k d)
  then show ?case by (cases i) auto
next
  case (3 k k' v' d)
  then show ?case by (cases i) auto
qed

lemma concact_step_length:
  assumes "i < length (h ! grp)" and "h ! grp ! i = Some (key, val)"
  shows "length (h[this := map_set key val (h ! this)] ! grp) = length (h ! grp)"
proof (cases "this = grp \<and> this < length h")
  case True
  with assms have "map_has key (h ! this)" by (auto intro: map_has_nth)
  with True show ?thesis by (simp add: length_map_set_present)
next
  case False
  then show ?thesis by (cases "this = grp") (auto simp: list_update_beyond)
qed

function concact_inner :: "nat \<Rightarrow> nat \<Rightarrow> nat \<Rightarrow> ('k, 'v) heap \<Rightarrow> ('k, 'v) heap" where
  "concact_inner this grp i h =
     (if i < length (h ! grp)
      then (case (h ! grp) ! i of
              None \<Rightarrow> concact_inner this grp (Suc i) h
            | Some (key, val) \<Rightarrow>
                concact_inner this grp (Suc i) (h[this := map_set key val (h ! this)]))
      else h)"
  by pat_completeness auto
termination
  by (relation "measure (\<lambda>(this, grp, i, h). length (h ! grp) - i)")
     (auto simp: concact_step_length)

declare concact_inner.simps [simp del]

fun instanceof_Group :: "'f jsvalue \<Rightarrow> bool" where
  "instanceof_Group (GroupObject r) = True"
| "instanceof_Group _ = False"

fun concact_loop :: "nat \<Rightarrow> 'f jsvalue list \<Rightarrow> ('k, 'v) heap \<Rightarrow> ('k, 'v) heap" where
  "concact_loop this [] h = h"
| "concact_loop this (GroupObject grp # grps) h =
     concact_loop this grps (concact_inner this grp 0 h)"
| "concact_loop this (_ # grps) h = concact_loop this grps h"

definition concact ::
  "'f jsvalue list \<Rightarrow> nat \<Rightarrow> ('k, 'v) heap \<Rightarrow> (('f jsvalue list) error + nat) \<times> ('k, 'v) heap" where
  "concact grps this h =
     (if \<not> list_all instanceof_Group grps
      then (Inl (GroupError ''Invalid ...groups parameter. Expected a rest of groups.'' grps), h)
      else (Inr this, concact_loop this grps h))"

text \<open>Setting a list of entries one after the other, and the entries of the argument
  groups of \<open>concact\<close> other than the receiver, in argument order.\<close>

definition set_all :: "('k, 'v) mapdata \<Rightarrow> ('k, 'v) entries \<Rightarrow> ('k, 'v) mapdata" where
  "set_all d es = foldl (\<lambda>d (k, v). map_set k v d) d es"

definition sources :: "nat \<Rightarrow> nat list \<Rightarrow> ('k, 'v) heap \<Rightarrow> ('k, 'v) entries" where
  "sources this refs h = concat (map (\<lambda>r. map_entries (h ! r)) (filter (\<lambda>r. r \<noteq> this) refs))"

section \<open>Facts about values and the native Map\<close>

text \<open>The tests \<open>typeof x !== 'function'\<close> and \<open>typeof x !== 'number'\<close> are the case
  distinctions of the definitions above.\<close>

lemma typeof_function: "typeof x = ''function'' \<longleftrightarrow> (\<exists>f. x = Function f)"
  by (cases x) simp_all

lemma typeof_number: "typeof x = ''number'' \<longleftrightarrow> (\<exists>n. x = Number n)"
  by (cases x) simp_all

lemma map_entries_append: "map_entries (a @ b) = map_entries a @ map_entries b"
  by (induction a rule: map_entries.induct) auto

lemma map_has_keys: "map_has k d \<longleftrightarrow> k \<in> set (map_keys d)"
  by (induction k d rule: map_has.induct) (auto simp: map_keys_def)

lemma map_get_entries: "map_get k d = map_of (map_entries d) k"
  by (induction k d rule: map_get.induct) auto

lemma map_entries_set: "map_entries (map_set k v d) = AList.update k v (map_entries d)"
  by (induction k v d rule: map_set.induct) auto

lemma map_entries_set_absent:
  "\<not> map_has k d \<Longrightarrow> map_entries (map_set k v d) = map_entries d @ [(k, v)]"
  by (induction k v d rule: map_set.induct) auto

lemma map_wf_set: "map_wf d \<Longrightarrow> map_wf (map_set k v d)"
  by (simp add: map_wf_def map_keys_def map_entries_set distinct_update)

lemma map_wf_new: "map_wf (map_new iterable)"
proof -
  have "map_wf d \<Longrightarrow> map_wf (foldl (\<lambda>d (k, v). map_set k v d) d iterable)" for d :: "('a, 'b) mapdata"
    by (induction iterable arbitrary: d) (auto simp: map_wf_set)
  then show ?thesis
    by (simp add: map_new_def map_wf_def map_keys_def)
qed

lemma map_get_set: "map_get k' (map_set k v d) = (if k' = k then Some v else map_get k' d)"
  by (simp add: map_get_entries map_entries_set update_conv')

lemma map_has_set: "map_has k' (map_set k v d) \<longleftrightarrow> k' = k \<or> map_has k' d"
  by (auto simp: map_has_keys map_keys_def map_entries_set update_keys)

lemma map_entries_nth:
  "i < length d \<Longrightarrow> d ! i = Some e \<Longrightarrow> e \<in> set (map_entries d)"
proof (induction d arbitrary: i rule: map_entries.induct)
  case 1
  then show ?case by simp
next
  case (2 d)
  then show ?case by (cases i) auto
next
  case (3 e' d)
  then show ?case by (cases i) auto
qed

lemma map_delete_nth:
  "map_wf d \<Longrightarrow> i < length d \<Longrightarrow> d ! i = Some (k, v) \<Longrightarrow> map_delete k d = d[i := None]"
proof (induction k d arbitrary: i rule: map_delete.induct)
  case (1 k)
  then show ?case by simp
next
  case (2 k d)
  then show ?case by (cases i) (auto simp: map_wf_def map_keys_def)
next
  case (3 k k' v' d)
  show ?case
  proof (cases i)
    case 0
    with 3 show ?thesis by simp
  next
    case (Suc j)
    with 3 have "(k, v) \<in> set (map_entries d)" by (auto intro: map_entries_nth)
    then have "k \<in> fst ` set (map_entries d)" by force
    with 3 have "k' \<noteq> k" by (auto simp: map_wf_def map_keys_def)
    with 3 Suc show ?thesis by (auto simp: map_wf_def map_keys_def)
  qed
qed

lemma map_set_nth:
  "map_wf d \<Longrightarrow> i < length d \<Longrightarrow> d ! i = Some (k, v) \<Longrightarrow> map_set k v d = d"
proof (induction k v d arbitrary: i rule: map_set.induct)
  case (1 k v)
  then show ?case by simp
next
  case (2 k v d)
  then show ?case by (cases i) (auto simp: map_wf_def map_keys_def)
next
  case (3 k v k' v' d)
  show ?case
  proof (cases i)
    case 0
    with 3 show ?thesis by simp
  next
    case (Suc j)
    with 3 have "(k, v) \<in> set (map_entries d)" by (auto intro: map_entries_nth)
    then have "k \<in> fst ` set (map_entries d)" by force
    with 3 have "k' \<noteq> k" by (auto simp: map_wf_def map_keys_def)
    with 3 Suc show ?thesis by (auto simp: map_wf_def map_keys_def)
  qed
qed

lemma map_entries_take_Suc:
  "i < length d \<Longrightarrow>
   map_entries (take (Suc i) d) = map_entries (take i d) @ (case d ! i of None \<Rightarrow> [] | Some e \<Rightarrow> [e])"
  by (simp add: take_Suc_conv_app_nth map_entries_append split: option.split)

lemma map_entries_drop:
  "i < length d \<Longrightarrow>
   map_entries (drop i d) = (case d ! i of None \<Rightarrow> [] | Some e \<Rightarrow> [e]) @ map_entries (drop (Suc i) d)"
  by (simp add: Cons_nth_drop_Suc [symmetric] split: option.split)

lemma map_wf_update_None: "map_wf d \<Longrightarrow> map_wf (d[i := None])"
proof (induction d arbitrary: i rule: map_entries.induct)
  case 1
  then show ?case by simp
next
  case (2 d)
  then show ?case by (cases i) (auto simp: map_wf_def map_keys_def)
next
  case (3 e d)
  have sub: "set (map_entries (d[j := None])) \<subseteq> set (map_entries d)" for j
  proof (induction d arbitrary: j rule: map_entries.induct)
    case 1
    then show ?case by simp
  next
    case (2 d)
    then show ?case by (cases j) auto
  next
    case (3 e d)
    then show ?case by (cases j) auto
  qed
  from 3 show ?case by (cases i) (use sub in \<open>auto simp: map_wf_def map_keys_def\<close>)
qed

lemma map_get_has: "map_has k d \<Longrightarrow> \<exists>v. map_get k d = Some v"
  by (induction k d rule: map_get.induct) auto

lemma set_all_Nil: "set_all d [] = d"
  by (simp add: set_all_def)

lemma set_all_Cons: "set_all d ((k, v) # es) = set_all (map_set k v d) es"
  by (simp add: set_all_def)

lemma set_all_append: "set_all d (es @ es') = set_all (set_all d es) es'"
  by (simp add: set_all_def)

lemma map_wf_set_all: "map_wf d \<Longrightarrow> map_wf (set_all d es)"
  by (induction es arbitrary: d) (auto simp: set_all_Nil set_all_Cons map_wf_set)

lemma map_get_set_all:
  "map_get k (set_all d es) = (case map_of (rev es) k of Some v \<Rightarrow> Some v | None \<Rightarrow> map_get k d)"
proof (induction es arbitrary: d)
  case Nil
  then show ?case by (simp add: set_all_Nil)
next
  case (Cons e es)
  obtain k' v' where e: "e = (k', v')" by (cases e)
  show ?case
    by (simp add: e set_all_Cons Cons.IH map_get_set map_add_def split: option.split)
qed

lemma some_loop_iff: "some_loop f g es \<longleftrightarrow> (\<exists>(k, v) \<in> set es. f v k g)"
  by (induction f g es rule: some_loop.induct) auto

lemma every_loop_iff: "every_loop f g es \<longleftrightarrow> (\<forall>(k, v) \<in> set es. f v k g)"
  by (induction f g es rule: every_loop.induct) auto

section \<open>Reading by position: \<open>first\<close> and \<open>last\<close>\<close>

text \<open>With an integer amount greater than 1, \<open>first\<close> returns the leading values, as
  many as there are up to the amount.\<close>

lemma first_integer_amount:
  "1 < n \<Longrightarrow> first (Number (Finite (of_int n))) this h = Many (take (nat n) (map_values (h ! this)))"
  by (auto simp: first_def array_slice_def Let_def min_def)

text \<open>\<open>last\<close> starts its slice at \<open>length - amount\<close>. Up to the size this is the index of
  the first of the trailing values; beyond the size it is negative, and \<open>slice\<close> counts a
  negative start from the end of the array.\<close>

lemma last_integer_amount:
  "1 < n \<Longrightarrow> last_group (Number (Finite (of_int n))) this h =
     Many (let values = map_values (h ! this); len = int (length values)
           in if n \<le> len then drop (nat (len - n)) values else drop (nat (2 * len - n)) values)"
  by (auto simp: last_group_def array_slice_def Let_def min_def max_def)

text \<open>
  Claim C1 (the part on \<open>last\<close>). On the group with the entries \<open>(a, 1)\<close>, \<open>(b, 2)\<close>,
  \<open>(c, 3)\<close>, \<open>last(4)\<close> returns the array \<open>[3]\<close>: one value, where the last
  \<open>min(4, 3) = 3\<close> values are \<open>[1, 2, 3]\<close>.
\<close>

theorem last_amount_beyond_size:
  "last_group (Number (Finite 4)) 0 [[Some (''a'', 1::int), Some (''b'', 2), Some (''c'', 3)]]
     = Many [3]"
  by code_simp

text \<open>
  Claim C9. An amount that is not a number is never rejected: \<open>first\<close> and \<open>last\<close>
  return the one value (or \<open>undefined\<close>) that they return without an argument.
\<close>

theorem first_last_not_a_number:
  fixes amount :: "'f jsvalue"
  assumes "typeof amount \<noteq> ''number''"
  shows "first amount this h = One (array_index (map_values (h ! this)) 0)
       \<and> first amount this h = first (Undefined :: 'f jsvalue) this h
       \<and> last_group amount this h
           = One (array_index (map_values (h ! this)) (int (length (map_values (h ! this))) - 1))
       \<and> last_group amount this h = last_group (Undefined :: 'f jsvalue) this h"
  using assms by (cases amount) (simp_all add: first_def last_group_def Let_def)

theorem first_last_not_a_number_witness:
  "typeof (String ''2'' :: unit jsvalue) \<noteq> ''number''
   \<and> first (String ''2'' :: unit jsvalue) 0
         [[Some (''a'', 1::int), Some (''b'', 2), Some (''c'', 3)]] = One (Some 1)
   \<and> last_group (String ''2'' :: unit jsvalue) 0
         [[Some (''a'', 1::int), Some (''b'', 2), Some (''c'', 3)]] = One (Some 3)"
  using first_last_not_a_number [of "String ''2'' :: unit jsvalue" 0
          "[[Some (''a'', 1::int), Some (''b'', 2), Some (''c'', 3)]]"]
  by (simp add: map_values_def array_index_def)

section \<open>Reading by position: \<open>at\<close> and \<open>keyAt\<close>\<close>

text \<open>
  Claim C2, as the code has it. In \<open>src/group.ts\<close>, \<open>at\<close> and \<open>keyAt\<close> raise the error for
  every index that is not an integer. In the group with the parameterised \<open>first\<close> and
  \<open>last\<close> they raise it for every index that is not of type number, and hand every number
  to \<open>Array.prototype.at\<close>, which truncates it toward zero.
\<close>

theorem at_keyAt_index_guard:
  fixes x y :: "'f jsvalue"
  shows "(\<not> isInteger x \<longrightarrow>
            at_integer x this h
              = Inl (GroupError ''Invalid index parameter. Expected an integer number.'' x)
          \<and> keyAt_integer x this h
              = Inl (GroupError ''Invalid index parameter. Expected an integer number.'' x))
       \<and> (typeof y \<noteq> ''number'' \<longrightarrow>
            at_group y this h = Inl (GroupError ''Invalid index parameter. Expected a number.'' y)
          \<and> keyAt y this h = Inl (GroupError ''Invalid index parameter. Expected a number.'' y))
       \<and> at_group (Number n :: 'f jsvalue) this h = Inr (array_at (map_values (h ! this)) n)
       \<and> keyAt (Number n :: 'f jsvalue) this h = Inr (array_at (map_keys (h ! this)) n)"
  by (cases y) (simp_all add: at_integer_def keyAt_integer_def at_group_def keyAt_def)

theorem at_keyAt_index_guard_witness:
  "\<not> isInteger (Number (Finite (3 / 2)) :: unit jsvalue)
   \<and> at_integer (Number (Finite (3 / 2)) :: unit jsvalue) 0
        [[Some (''a'', 1::int), Some (''b'', 2), Some (''c'', 3)]]
      = Inl (GroupError ''Invalid index parameter. Expected an integer number.''
               (Number (Finite (3 / 2))))
   \<and> typeof (String ''1'' :: unit jsvalue) \<noteq> ''number''
   \<and> at_group (String ''1'' :: unit jsvalue) 0
        [[Some (''a'', 1::int), Some (''b'', 2), Some (''c'', 3)]]
      = Inl (GroupError ''Invalid index parameter. Expected a number.'' (String ''1''))
   \<and> at_group (Number (Finite (3 / 2)) :: unit jsvalue) 0
        [[Some (''a'', 1::int), Some (''b'', 2), Some (''c'', 3)]] = Inr (Some 2)"
proof -
  have frac: "\<not> isInteger (Number (Finite (3 / 2)) :: unit jsvalue)"
    by code_simp
  have val: "array_at (map_values [Some (''a'', 1::int), Some (''b'', 2), Some (''c'', 3)])
               (Finite (3 / 2)) = Some 2"
    by code_simp
  show ?thesis
    using frac val
      at_keyAt_index_guard [of "Number (Finite (3 / 2)) :: unit jsvalue" 0
          "[[Some (''a'', 1::int), Some (''b'', 2), Some (''c'', 3)]]" "String ''1''"
          "Finite (3 / 2)"]
    by simp
qed

text \<open>
  Claim C2, as stated, fails on the group with the parameterised \<open>first\<close> and \<open>last\<close>:
  the index 1.5 is not an integer, and \<open>at(1.5)\<close> and \<open>keyAt(1.5)\<close> return the value and
  the key at position 1.
\<close>

theorem at_keyAt_fraction_accepted:
  "\<not> isInteger (Number (Finite (3 / 2)) :: unit jsvalue)
   \<and> at_group (Number (Finite (3 / 2)) :: unit jsvalue) 0
        [[Some (''a'', 1::int), Some (''b'', 2), Some (''c'', 3)]] = Inr (Some 2)
   \<and> keyAt (Number (Finite (3 / 2)) :: unit jsvalue) 0
        [[Some (''a'', 1::int), Some (''b'', 2), Some (''c'', 3)]] = Inr (Some ''b'')"
  by code_simp

section \<open>\<open>sweep\<close>\<close>

text \<open>The loop of \<open>sweep\<close> from slot \<open>i\<close> on: the entries before the slot stay, and of the
  entries from the slot on those stay that the callback rejects.\<close>

lemma sweep_loop_entries:
  "pure_callback f \<Longrightarrow> map_wf d \<Longrightarrow> i \<le> length d \<Longrightarrow>
    map_entries (sweep_loop f i d)
      = map_entries (take i d) @ filter (\<lambda>(k, v). \<not> f v k g) (map_entries (drop i d))"
proof (induction f i d rule: sweep_loop.induct)
  case (1 f i d)
  show ?case
  proof (cases "i < length d")
    case False
    with 1 show ?thesis by (subst sweep_loop.simps) simp
  next
    case lt: True
    show ?thesis
    proof (cases "d ! i")
      case None
      with 1 lt show ?thesis
        by (subst sweep_loop.simps) (simp add: map_entries_take_Suc map_entries_drop [of i])
    next
      case (Some e)
      obtain k v where e: "e = (k, v)" by (cases e)
      show ?thesis
      proof (cases "f v k (map_entries d)")
        case True
        have del: "map_delete k d = d[i := None]"
          using "1.prems" lt Some e by (simp add: map_delete_nth)
        have wf': "map_wf (d[i := None])"
          using "1.prems" by (simp add: map_wf_update_None)
        have fg: "f v k g" using True "1.prems"(1) by (auto simp: pure_callback_def)
        have IH: "map_entries (sweep_loop f (Suc i) (d[i := None]))
              = map_entries (take (Suc i) (d[i := None]))
                @ filter (\<lambda>(k, v). \<not> f v k g) (map_entries (drop (Suc i) (d[i := None])))"
          using "1.IH"(2) [OF lt Some e [symmetric] "1.prems"(1)] True del wf' lt by simp
        have "sweep_loop f i d = sweep_loop f (Suc i) (d[i := None])"
          using lt Some e True del by (subst sweep_loop.simps) simp
        with IH lt Some e fg show ?thesis
          by (simp add: map_entries_take_Suc map_entries_drop [of i d])
      next
        case False
        have fg: "\<not> f v k g" using False "1.prems"(1) by (auto simp: pure_callback_def)
        have IH: "map_entries (sweep_loop f (Suc i) d)
              = map_entries (take (Suc i) d)
                @ filter (\<lambda>(k, v). \<not> f v k g) (map_entries (drop (Suc i) d))"
          using "1.IH"(2) [OF lt Some e [symmetric] "1.prems"(1)] False "1.prems" lt by simp
        have "sweep_loop f i d = sweep_loop f (Suc i) d"
          using lt Some e False by (subst sweep_loop.simps) simp
        with IH lt Some e fg show ?thesis
          by (simp add: map_entries_take_Suc map_entries_drop [of i d])
      qed
    qed
  qed
qed

text \<open>
  Claim C3. For a pure predicate \<open>P\<close>, \<open>sweep(P)\<close> returns the group itself; afterwards
  \<open>some(P)\<close> is false, the size and the number of entries that satisfied \<open>P\<close> add up
  to the size before, and the entries are those that did not satisfy \<open>P\<close>, in their order.
  No other group of the store changes.
\<close>

theorem sweep_pure_predicate:
  assumes "this < length h" and "map_wf (h ! this)" and "pure_callback P"
  shows "fst (sweep (Function P) this h) = Inr this
       \<and> (let h' = snd (sweep (Function P) this h); before = map_entries (h ! this)
          in some (Function P) this h' = (Inr False, h')
           \<and> map_size (h' ! this) + length (filter (\<lambda>(k, v). P v k before) before)
               = map_size (h ! this)
           \<and> map_entries (h' ! this) = filter (\<lambda>(k, v). \<not> P v k before) before
           \<and> length h' = length h
           \<and> (\<forall>r. r \<noteq> this \<longrightarrow> h' ! r = h ! r))"
proof -
  define before where "before = map_entries (h ! this)"
  define h' where "h' = snd (sweep (Function P) this h)"
  have h': "h' = h[this := sweep_loop P 0 (h ! this)]"
    by (simp add: h'_def sweep_def)
  have after: "map_entries (h' ! this) = filter (\<lambda>(k, v). \<not> P v k before) before"
    using assms sweep_loop_entries [of P "h ! this" 0 before]
    by (simp add: h' before_def)
  have "\<not> some_loop P (map_entries (h' ! this)) (map_entries (h' ! this))"
    using assms(3) unfolding some_loop_iff after
    by (auto simp: pure_callback_def)
  then have no_more: "some (Function P) this h' = (Inr False, h')"
    by (simp add: some_def)
  have "length (filter (\<lambda>(k, v). P v k before) before)
          + length (filter (\<lambda>(k, v). \<not> P v k before) before) = length before"
    using sum_length_filter_compl [of "\<lambda>(k, v). P v k before" before]
    by (simp add: case_prod_unfold)
  then have size: "map_size (h' ! this) + length (filter (\<lambda>(k, v). P v k before) before)
      = map_size (h ! this)"
    by (simp add: map_size_def after before_def [symmetric])
  have frame: "length h' = length h \<and> (\<forall>r. r \<noteq> this \<longrightarrow> h' ! r = h ! r)"
    by (simp add: h')
  have "fst (sweep (Function P) this h) = Inr this"
    by (simp add: sweep_def)
  with no_more size after frame show ?thesis
    by (simp add: Let_def h'_def [symmetric] before_def [symmetric])
qed

theorem sweep_pure_predicate_witness:
  "0 < length [[Some (''a'', 1::int), Some (''b'', 2), Some (''c'', 3)]]
   \<and> map_wf ([[Some (''a'', 1::int), Some (''b'', 2), Some (''c'', 3)]] ! 0)
   \<and> pure_callback (\<lambda>(v::int) (k::string) g. v = 2)
   \<and> fst (sweep (Function (\<lambda>v k g. v = 2)) 0
             [[Some (''a'', 1::int), Some (''b'', 2), Some (''c'', 3)]]) = Inr 0
   \<and> map_entries (snd (sweep (Function (\<lambda>v k g. v = 2)) 0
             [[Some (''a'', 1::int), Some (''b'', 2), Some (''c'', 3)]]) ! 0)
        = [(''a'', 1), (''c'', 3)]"
proof -
  have valid: "0 < length [[Some (''a'', 1::int), Some (''b'', 2), Some (''c'', 3)]]"
    by simp
  have wf: "map_wf ([[Some (''a'', 1::int), Some (''b'', 2), Some (''c'', 3)]] ! 0)"
    by (simp add: map_wf_def map_keys_def)
  have pure: "pure_callback (\<lambda>(v::int) (k::string) g. v = 2)"
    by (simp add: pure_callback_def)
  from sweep_pure_predicate [OF valid wf pure] valid wf pure show ?thesis
    by (simp add: Let_def)
qed

text \<open>
  The predicate has to be pure. A callback without effects can still read the group
  it is given, a mutable object, and its result then varies with the state of that
  group: here \<open>sweep\<close> deletes \<open>(c, 3)\<close>, after which \<open>(a, 1)\<close> satisfies the predicate.
\<close>

lemma sweep_some_reads_group:
  "sweep (Function (\<lambda>v k g. (v = 1 \<and> length g = 2) \<or> v = 3)) 0
      [[Some (''a'', 1::int), Some (''b'', 2), Some (''c'', 3)]]
     = (Inr 0, [[Some (''a'', 1), Some (''b'', 2), None]])
   \<and> some (Function (\<lambda>v k g. (v = 1 \<and> length g = 2) \<or> v = 3)) 0
      [[Some (''a'', 1::int), Some (''b'', 2), None]]
     = (Inr True, [[Some (''a'', 1), Some (''b'', 2), None]])"
  by (simp add: sweep_def some_def sweep_loop.simps)

section \<open>\<open>filter\<close> and \<open>every\<close>\<close>

lemma map_entries_set_subset:
  "set (map_entries (map_set k v d)) \<subseteq> insert (k, v) (set (map_entries d))"
  by (induction k v d rule: map_set.induct) auto

lemma filter_loop_satisfy:
  "\<forall>(k, v) \<in> set (map_entries acc). f v k g \<Longrightarrow>
   \<forall>(k, v) \<in> set (map_entries (filter_loop f g es acc)). f v k g"
proof (induction f g es acc rule: filter_loop.induct)
  case (1 f g filteredGroup)
  then show ?case by simp
next
  case (2 f g key val es filteredGroup)
  show ?case
  proof (cases "f val key g")
    case True
    with "2.prems" map_entries_set_subset [of key val filteredGroup]
    have "\<forall>(k, v) \<in> set (map_entries (map_set key val filteredGroup)). f v k g"
      by auto
    with True "2.IH" show ?thesis by simp
  next
    case False
    with 2 show ?thesis by simp
  qed
qed

text \<open>
  Claim C7. For a pure predicate \<open>P\<close>, \<open>filter(P)\<close> returns a new group, and \<open>every(P)\<close>
  on this group, once it is in the store, is true.
\<close>

theorem filter_every:
  assumes "pure_callback P"
  shows "\<exists>d. filter_group (Function P) this h = (Inr d, h)
           \<and> every (Function P) (fst (new_Group d h)) (snd (new_Group d h))
               = (Inr True, snd (new_Group d h))"
proof -
  define g where "g = map_entries (h ! this)"
  define d where "d = filter_loop P g g []"
  have "\<forall>(k, v) \<in> set (map_entries d). P v k g"
    unfolding d_def by (rule filter_loop_satisfy) simp
  moreover from assms have "P v k (map_entries d) = P v k g" for v k
    unfolding pure_callback_def by blast
  ultimately have "\<forall>(k, v) \<in> set (map_entries d). P v k (map_entries d)"
    by simp
  then have "every (Function P) (fst (new_Group d h)) (snd (new_Group d h))
               = (Inr True, snd (new_Group d h))"
    by (simp add: every_def new_Group_def every_loop_iff)
  moreover have "filter_group (Function P) this h = (Inr d, h)"
    by (simp add: filter_group_def d_def g_def Let_def)
  ultimately show ?thesis by blast
qed

theorem filter_every_witness:
  "pure_callback (\<lambda>(v::int) (k::string) g. 1 < v)
   \<and> fst (filter_group (Function (\<lambda>v k g. 1 < v)) 0
             [[Some (''a'', 1::int), Some (''b'', 2), Some (''c'', 3)]])
       = Inr [Some (''b'', 2), Some (''c'', 3)]
   \<and> fst (every (Function (\<lambda>v k g. 1 < v)) 1
             [[Some (''a'', 1::int), Some (''b'', 2), Some (''c'', 3)],
              [Some (''b'', 2), Some (''c'', 3)]]) = Inr True"
proof -
  have pure: "pure_callback (\<lambda>(v::int) (k::string) g. 1 < v)"
    by (simp add: pure_callback_def)
  have result: "fst (filter_group (Function (\<lambda>v k g. 1 < v)) 0
             [[Some (''a'', 1::int), Some (''b'', 2), Some (''c'', 3)]])
       = Inr [Some (''b'', 2), Some (''c'', 3)]"
    by (simp add: filter_group_def)
  from filter_every [OF pure, of 0 "[[Some (''a'', 1::int), Some (''b'', 2), Some (''c'', 3)]]"]
    pure result show ?thesis
    by (auto simp: new_Group_def)
qed

text \<open>Here too the predicate has to be pure: one that reads the size of the group it is
  given holds of \<open>(b, 2)\<close> in the receiver and not in the new group.\<close>

lemma filter_every_reads_group:
  "fst (filter_group (Function (\<lambda>v k g. length g = 3 \<and> v \<noteq> 1)) 0
          [[Some (''a'', 1::int), Some (''b'', 2), Some (''c'', 3)]])
     = Inr [Some (''b'', 2), Some (''c'', 3)]
   \<and> fst (every (Function (\<lambda>v k g. length g = 3 \<and> v \<noteq> 1)) 1
          [[Some (''a'', 1::int), Some (''b'', 2), Some (''c'', 3)],
           [Some (''b'', 2), Some (''c'', 3)]]) = Inr False"
  by (simp add: filter_group_def every_def)

text \<open>The entries of the new group are the entries of the receiver that satisfy the
  callback, in their order.\<close>

lemma filter_loop_entries:
  "distinct (map fst (map_entries acc) @ map fst es) \<Longrightarrow>
   map_entries (filter_loop f g es acc) = map_entries acc @ filter (\<lambda>(k, v). f v k g) es"
proof (induction f g es acc rule: filter_loop.induct)
  case (1 f g filteredGroup)
  then show ?case by simp
next
  case (2 f g key val es filteredGroup)
  from "2.prems" have absent: "\<not> map_has key filteredGroup"
    by (simp add: map_has_keys map_keys_def)
  show ?case
  proof (cases "f val key g")
    case True
    from "2.prems" absent
    have "distinct (map fst (map_entries (map_set key val filteredGroup)) @ map fst es)"
      by (auto simp: map_entries_set_absent)
    with "2.IH" True absent show ?thesis
      by (simp add: map_entries_set_absent)
  next
    case False
    with 2 show ?thesis by simp
  qed
qed

lemma filter_group_entries:
  assumes "map_wf (h ! this)"
  shows "\<exists>d. filter_group (Function f) this h = (Inr d, h)
           \<and> map_entries d
               = filter (\<lambda>(k, v). f v k (map_entries (h ! this))) (map_entries (h ! this))"
  using assms
  by (simp add: filter_group_def Let_def filter_loop_entries map_wf_def map_keys_def)

section \<open>\<open>map\<close>\<close>

lemma map_loop_entries:
  "distinct (map fst (map_entries acc) @ map fst es) \<Longrightarrow>
   map_entries (map_loop f g es acc) = map_entries acc @ map (\<lambda>(k, v). (k, f v k g)) es"
proof (induction f g es acc rule: map_loop.induct)
  case (1 f g mappedMap)
  then show ?case by simp
next
  case (2 f g key val es mappedMap)
  from "2.prems" have absent: "\<not> map_has key mappedMap"
    by (simp add: map_has_keys map_keys_def)
  from "2.prems" absent
  have "distinct (map fst (map_entries (map_set key (f val key g) mappedMap)) @ map fst es)"
    by (auto simp: map_entries_set_absent)
  with "2.IH" absent show ?case
    by (simp add: map_entries_set_absent)
qed

text \<open>
  Claim C8. \<open>map(f)\<close> returns a new group of the size of the receiver, with the keys of
  the receiver in their order and, under each key, the result of \<open>f\<close> on its entry.
  It leaves the store as it was: the receiver is not modified.
\<close>

theorem map_same_keys:
  assumes "map_wf (h ! this)"
  shows "\<exists>d. map_group (Function f) this h = (Inr d, h)
           \<and> map_size d = map_size (h ! this)
           \<and> map_keys d = map_keys (h ! this)
           \<and> map_entries d
               = map (\<lambda>(k, v). (k, f v k (map_entries (h ! this)))) (map_entries (h ! this))"
proof -
  define g where "g = map_entries (h ! this)"
  define d where "d = map_loop f g g []"
  from assms have "distinct (map fst (map_entries []) @ map fst g)"
    by (simp add: map_wf_def map_keys_def g_def)
  then have entries: "map_entries d = map (\<lambda>(k, v). (k, f v k g)) g"
    unfolding d_def by (simp add: map_loop_entries)
  then have "map_size d = map_size (h ! this)" and "map_keys d = map_keys (h ! this)"
    by (simp_all add: map_size_def map_keys_def g_def case_prod_unfold comp_def)
  moreover have "map_group (Function f) this h = (Inr d, h)"
    by (simp add: map_group_def d_def g_def Let_def)
  ultimately show ?thesis using entries by (simp add: g_def)
qed

theorem map_same_keys_witness:
  "map_wf ([[Some (''a'', 1::int), Some (''b'', 2), Some (''c'', 3)]] ! 0)
   \<and> (\<exists>d. map_group (Function (\<lambda>v k g. v * 10)) 0
              [[Some (''a'', 1::int), Some (''b'', 2), Some (''c'', 3)]]
            = (Inr d, [[Some (''a'', 1), Some (''b'', 2), Some (''c'', 3)]])
          \<and> map_entries d = [(''a'', 10), (''b'', 20), (''c'', 30)])"
proof -
  have wf: "map_wf ([[Some (''a'', 1::int), Some (''b'', 2), Some (''c'', 3)]] ! 0)"
    by (simp add: map_wf_def map_keys_def)
  from map_same_keys [OF wf, of "\<lambda>v k g. v * 10"] wf show ?thesis
    by auto
qed

section \<open>\<open>fallback\<close>\<close>

text \<open>
  Claim C4. When the key is present, \<open>fallback\<close> returns its value and neither the store
  nor the state of the generator changes: the generator is not called. When the key is
  absent, the generator is called once, on the key and the group, its value is set under
  the key and returned. A second call returns what the first returned and changes
  nothing.
\<close>

theorem fallback_get_or_generate:
  assumes "this < length h"
  shows "(map_has key (h ! this) \<longrightarrow>
            (\<exists>v. map_get key (h ! this) = Some v
               \<and> fallback key (Function gen) this h w = (Inr (Some v), h, w)))
       \<and> (\<not> map_has key (h ! this) \<longrightarrow>
            (let (val, w') = gen key (map_entries (h ! this)) w;
                 h' = h[this := map_set key val (h ! this)]
             in fallback key (Function gen) this h w = (Inr (Some val), h', w')
              \<and> map_get key (h' ! this) = Some val))
       \<and> (let (r1, h1, w1) = fallback key (Function gen) this h w
          in fallback key (Function gen) this h1 w1 = (r1, h1, w1))"
proof (cases "map_has key (h ! this)")
  case True
  then obtain v where "map_get key (h ! this) = Some v"
    using map_get_has by fastforce
  with True show ?thesis
    by (simp add: fallback_def)
next
  case False
  obtain val w' where gen: "gen key (map_entries (h ! this)) w = (val, w')"
    by (cases "gen key (map_entries (h ! this)) w")
  define h' where "h' = h[this := map_set key val (h ! this)]"
  from assms have at_this: "h' ! this = map_set key val (h ! this)"
    by (simp add: h'_def)
  have first_call: "fallback key (Function gen) this h w = (Inr (Some val), h', w')"
    using False gen at_this by (simp add: fallback_def h'_def [symmetric] map_get_set)
  have "map_has key (h' ! this)" and "map_get key (h' ! this) = Some val"
    by (simp_all add: at_this map_has_set map_get_set)
  then have "fallback key (Function gen) this h' w' = (Inr (Some val), h', w')"
    by (simp add: fallback_def)
  with False gen first_call show ?thesis
    by (simp add: h'_def [symmetric] at_this map_get_set)
qed

theorem fallback_get_or_generate_witness:
  "fallback ''a'' (Function (\<lambda>k g n. (4, Suc n))) 0
      [[Some (''a'', 1::int), Some (''b'', 2), Some (''c'', 3)]] (0::nat)
     = (Inr (Some 1), [[Some (''a'', 1), Some (''b'', 2), Some (''c'', 3)]], 0)
   \<and> fallback ''d'' (Function (\<lambda>k g n. (4, Suc n))) 0
      [[Some (''a'', 1::int), Some (''b'', 2), Some (''c'', 3)]] (0::nat)
     = (Inr (Some 4), [[Some (''a'', 1), Some (''b'', 2), Some (''c'', 3), Some (''d'', 4)]], 1)
   \<and> fallback ''d'' (Function (\<lambda>k g n. (4, Suc n))) 0
      [[Some (''a'', 1::int), Some (''b'', 2), Some (''c'', 3), Some (''d'', 4)]] (Suc 0)
     = (Inr (Some 4), [[Some (''a'', 1), Some (''b'', 2), Some (''c'', 3), Some (''d'', 4)]], 1)"
proof -
  have valid: "0 < length [[Some (''a'', 1::int), Some (''b'', 2), Some (''c'', 3)]]"
    by simp
  note present = fallback_get_or_generate [OF valid, of "''a''" "\<lambda>k g n. (4, Suc n)" "0::nat"]
  note absent = fallback_get_or_generate [OF valid, of "''d''" "\<lambda>k g n. (4, Suc n)" "0::nat"]
  from present have call_a: "fallback ''a'' (Function (\<lambda>k g n. (4, Suc n))) 0
      [[Some (''a'', 1::int), Some (''b'', 2), Some (''c'', 3)]] (0::nat)
     = (Inr (Some 1), [[Some (''a'', 1), Some (''b'', 2), Some (''c'', 3)]], 0)"
    by simp
  from absent have call_d: "fallback ''d'' (Function (\<lambda>k g n. (4, Suc n))) 0
      [[Some (''a'', 1::int), Some (''b'', 2), Some (''c'', 3)]] (0::nat)
     = (Inr (Some 4), [[Some (''a'', 1), Some (''b'', 2), Some (''c'', 3), Some (''d'', 4)]], 1)"
    by simp
  from absent have again: "fallback ''d'' (Function (\<lambda>k g n. (4, Suc n))) 0
      [[Some (''a'', 1::int), Some (''b'', 2), Some (''c'', 3), Some (''d'', 4)]] (Suc 0)
     = (Inr (Some 4), [[Some (''a'', 1), Some (''b'', 2), Some (''c'', 3), Some (''d'', 4)]], 1)"
    unfolding call_d by simp
  from call_a call_d again show ?thesis by simp
qed

text \<open>
  Claim C10. When the key is absent, the entry that \<open>fallback\<close> sets is the last in
  iteration order, \<open>keyAt(size - 1)\<close> is its key, and every position below the size before
  the call holds the key and the value that it held.
\<close>

theorem fallback_appends:
  assumes "this < length h" and "\<not> map_has key (h ! this)"
  shows "let (r, h', w') = fallback key (Function gen) this h w;
             val = fst (gen key (map_entries (h ! this)) w)
         in map_entries (h' ! this) = map_entries (h ! this) @ [(key, val)]
          \<and> keyAt (Number (Finite (of_nat (map_size (h' ! this)) - 1)) :: 'f jsvalue) this h'
              = Inr (Some key)
          \<and> (\<forall>i < map_size (h ! this).
               keyAt (Number (Finite (of_nat i)) :: 'f jsvalue) this h'
                 = keyAt (Number (Finite (of_nat i))) this h
             \<and> at_group (Number (Finite (of_nat i)) :: 'f jsvalue) this h'
                 = at_group (Number (Finite (of_nat i))) this h)"
proof -
  obtain val w' where gen: "gen key (map_entries (h ! this)) w = (val, w')"
    by (cases "gen key (map_entries (h ! this)) w")
  define h' where "h' = h[this := map_set key val (h ! this)]"
  from assms have at_this: "h' ! this = map_set key val (h ! this)"
    by (simp add: h'_def)
  have call: "fallback key (Function gen) this h w = (Inr (Some val), h', w')"
    using assms(2) gen at_this by (simp add: fallback_def h'_def [symmetric] map_get_set)
  have entries: "map_entries (h' ! this) = map_entries (h ! this) @ [(key, val)]"
    using assms(2) by (simp add: at_this map_entries_set_absent)
  have last_key: "keyAt (Number (Finite (of_nat (map_size (h' ! this)) - 1)) :: 'f jsvalue) this h'
      = Inr (Some key)"
    by (simp add: keyAt_def array_at_def map_keys_def map_size_def entries nth_append)
  have others: "keyAt (Number (Finite (of_nat i)) :: 'f jsvalue) this h'
                 = keyAt (Number (Finite (of_nat i))) this h
             \<and> at_group (Number (Finite (of_nat i)) :: 'f jsvalue) this h'
                 = at_group (Number (Finite (of_nat i))) this h"
    if "i < map_size (h ! this)" for i
    using that
    by (simp add: keyAt_def at_group_def array_at_def map_keys_def map_values_def map_size_def
        entries nth_append)
  from call gen entries last_key others show ?thesis
    by simp
qed

theorem fallback_appends_witness:
  "0 < length [[Some (''a'', 1::int), Some (''b'', 2), Some (''c'', 3)]]
   \<and> \<not> map_has ''d'' ([[Some (''a'', 1::int), Some (''b'', 2), Some (''c'', 3)]] ! 0)
   \<and> keyAt (Number (Finite 3) :: unit jsvalue) 0
        (fst (snd (fallback ''d'' (Function (\<lambda>k g n. (4, Suc n))) 0
           [[Some (''a'', 1::int), Some (''b'', 2), Some (''c'', 3)]] (0::nat))))
       = Inr (Some ''d'')"
proof -
  have valid: "0 < length [[Some (''a'', 1::int), Some (''b'', 2), Some (''c'', 3)]]"
    by simp
  have absent: "\<not> map_has ''d'' ([[Some (''a'', 1::int), Some (''b'', 2), Some (''c'', 3)]] ! 0)"
    by simp
  from fallback_appends [where 'f = unit, OF valid absent, of "\<lambda>k g n. (4, Suc n)" "0::nat"]
    valid absent show ?thesis
    by (auto simp: map_size_def split: prod.splits)
qed

section \<open>\<open>concact\<close>\<close>

lemma concact_inner_other:
  "this \<noteq> grp \<Longrightarrow> this < length h \<Longrightarrow>
   concact_inner this grp i h = h[this := set_all (h ! this) (map_entries (drop i (h ! grp)))]"
proof (induction this grp i h rule: concact_inner.induct)
  case (1 this grp i h)
  show ?case
  proof (cases "i < length (h ! grp)")
    case False
    then show ?thesis
      by (subst concact_inner.simps) (simp add: set_all_Nil)
  next
    case lt: True
    show ?thesis
    proof (cases "h ! grp ! i")
      case None
      with 1 lt show ?thesis
        by (subst concact_inner.simps) (simp add: map_entries_drop [of i])
    next
      case (Some e)
      obtain k v where e: "e = (k, v)" by (cases e)
      define h1 where "h1 = h[this := map_set k v (h ! this)]"
      have h1: "h1 ! grp = h ! grp" "h1 ! this = map_set k v (h ! this)" "this < length h1"
        using "1.prems" by (simp_all add: h1_def)
      have "concact_inner this grp (Suc i) h1
              = h1[this := set_all (h1 ! this) (map_entries (drop (Suc i) (h1 ! grp)))]"
        using "1.IH"(2) [OF lt Some e [symmetric] "1.prems"(1)] h1 by (simp add: h1_def)
      moreover have "concact_inner this grp i h = concact_inner this grp (Suc i) h1"
        using lt Some e by (subst concact_inner.simps) (simp add: h1_def)
      ultimately show ?thesis
        using lt Some e h1
        by (simp add: map_entries_drop [of i "h ! grp"] set_all_Cons) (simp add: h1_def)
    qed
  qed
qed

lemma concact_inner_self:
  "grp = this \<Longrightarrow> map_wf (h ! this) \<Longrightarrow> concact_inner this grp i h = h"
proof (induction this grp i h rule: concact_inner.induct)
  case (1 this grp i h)
  show ?case
  proof (cases "i < length (h ! grp)")
    case False
    then show ?thesis
      by (subst concact_inner.simps) simp
  next
    case lt: True
    show ?thesis
    proof (cases "h ! grp ! i")
      case None
      with 1 lt show ?thesis
        by (subst concact_inner.simps) simp
    next
      case (Some e)
      obtain k v where e: "e = (k, v)" by (cases e)
      have same: "h[this := map_set k v (h ! this)] = h"
        using "1.prems" lt Some e by (simp add: map_set_nth)
      have "concact_inner this grp i h
              = concact_inner this grp (Suc i) (h[this := map_set k v (h ! this)])"
        using lt Some e by (subst concact_inner.simps) simp
      also have "\<dots> = h"
        using "1.IH"(2) [OF lt Some e [symmetric] "1.prems"(1)] "1.prems" same by simp
      finally show ?thesis .
    qed
  qed
qed

lemma concact_loop_refs:
  "this < length h \<Longrightarrow> map_wf (h ! this) \<Longrightarrow>
   concact_loop this (map GroupObject refs) h
     = h[this := set_all (h ! this) (sources this refs h)]"
proof (induction refs arbitrary: h)
  case Nil
  then show ?case by (simp add: sources_def set_all_Nil)
next
  case (Cons r refs)
  show ?case
  proof (cases "r = this")
    case True
    with Cons show ?thesis
      by (simp add: concact_inner_self sources_def)
  next
    case False
    define h1 where "h1 = h[this := set_all (h ! this) (map_entries (h ! r))]"
    have inner: "concact_inner this r 0 h = h1"
      using False Cons.prems by (simp add: concact_inner_other h1_def)
    have h1: "this < length h1" "map_wf (h1 ! this)"
      "h1 ! this = set_all (h ! this) (map_entries (h ! r))"
      using Cons.prems by (simp_all add: h1_def map_wf_set_all)
    have "sources this refs h1 = sources this refs h"
      unfolding sources_def by (rule arg_cong [where f = concat]) (simp add: h1_def)
    with Cons.IH [OF h1(1,2)] inner h1(3) False show ?thesis
      by (simp add: sources_def set_all_append) (simp add: h1_def)
  qed
qed

text \<open>
  Claim C5. \<open>concact\<close> returns the receiver. Its map afterwards is its map before with
  the entries of the arguments set one after the other, in argument order, so that for
  every key the value is the last one among the arguments that have the key, or else the
  value the receiver had. No group other than the receiver changes. (An argument that is
  the receiver itself has nothing to add to it.)
\<close>

theorem concact_merges:
  fixes refs :: "nat list" and h :: "('k, 'v) heap"
  defines "grps \<equiv> (map GroupObject refs :: 'f jsvalue list)"
  assumes "this < length h" and "map_wf (h ! this)"
  shows "fst (concact grps this h) = Inr this
       \<and> (let h' = snd (concact grps this h);
              merged = sources this refs h
          in h' ! this = foldl (\<lambda>d (k, v). map_set k v d) (h ! this) merged
           \<and> (\<forall>k. map_get k (h' ! this)
                  = (case map_of (rev merged) k of Some v \<Rightarrow> Some v
                     | None \<Rightarrow> map_get k (h ! this)))
           \<and> length h' = length h
           \<and> (\<forall>r. r \<noteq> this \<longrightarrow> h' ! r = h ! r))"
proof -
  have guard: "list_all instanceof_Group grps"
    unfolding grps_def by (induction refs) simp_all
  then have call: "concact grps this h
      = (Inr this, h[this := set_all (h ! this) (sources this refs h)])"
    using assms(2,3) by (simp add: concact_def) (simp add: grps_def concact_loop_refs)
  have "set_all (h ! this) (sources this refs h)
      = foldl (\<lambda>d (k, v). map_set k v d) (h ! this) (sources this refs h)"
    by (simp add: set_all_def)
  with call assms(2) show ?thesis
    by (simp add: Let_def map_get_set_all [symmetric])
qed

theorem concact_merges_witness:
  "1 < length [[Some (''a'', 2::int), Some (''b'', 3)], [Some (''a'', 1)]]
   \<and> map_wf ([[Some (''a'', 2::int), Some (''b'', 3)], [Some (''a'', 1)]] ! 1)
   \<and> fst (concact [GroupObject 0 :: unit jsvalue] 1
            [[Some (''a'', 2::int), Some (''b'', 3)], [Some (''a'', 1)]]) = Inr 1
   \<and> snd (concact [GroupObject 0 :: unit jsvalue] 1
            [[Some (''a'', 2::int), Some (''b'', 3)], [Some (''a'', 1)]])
       = [[Some (''a'', 2), Some (''b'', 3)], [Some (''a'', 2), Some (''b'', 3)]]"
proof -
  have valid: "1 < length [[Some (''a'', 2::int), Some (''b'', 3)], [Some (''a'', 1)]]"
    by simp
  have wf: "map_wf ([[Some (''a'', 2::int), Some (''b'', 3)], [Some (''a'', 1)]] ! 1)"
    by (simp add: map_wf_def map_keys_def)
  note merged = concact_merges [where 'f = unit, OF valid wf, of "[0]"]
  have "length (snd (concact [GroupObject 0 :: unit jsvalue] 1
            [[Some (''a'', 2::int), Some (''b'', 3)], [Some (''a'', 1)]])) = 2"
    and "snd (concact [GroupObject 0 :: unit jsvalue] 1
            [[Some (''a'', 2::int), Some (''b'', 3)], [Some (''a'', 1)]]) ! 0
          = [Some (''a'', 2), Some (''b'', 3)]"
    and "snd (concact [GroupObject 0 :: unit jsvalue] 1
            [[Some (''a'', 2::int), Some (''b'', 3)], [Some (''a'', 1)]]) ! 1
          = [Some (''a'', 2), Some (''b'', 3)]"
    using merged by (simp_all add: Let_def sources_def)
  then have "snd (concact [GroupObject 0 :: unit jsvalue] 1
            [[Some (''a'', 2::int), Some (''b'', 3)], [Some (''a'', 1)]])
       = [[Some (''a'', 2), Some (''b'', 3)], [Some (''a'', 2), Some (''b'', 3)]]"
    by (simp add: list_eq_iff_nth_eq less_Suc_eq numeral_2_eq_2)
  with merged valid wf show ?thesis by simp
qed

section \<open>Arguments that are not functions\<close>

text \<open>
  Claim C6. Each of \<open>each\<close>, \<open>find\<close>, \<open>filter\<close>, \<open>map\<close>, \<open>findKey\<close>, \<open>every\<close>, \<open>some\<close>,
  \<open>sweep\<close> and \<open>fallback\<close> raises the error, with the argument as its cause, when the
  argument is not a function, and leaves the store as it was; \<open>each\<close> and \<open>fallback\<close> also
  leave the state of their callback as it was.
\<close>

theorem non_callable_rejected:
  fixes fn_each :: "('k, 'v, 'w \<Rightarrow> 'w) callback jsvalue"
    and fn :: "('k, 'v, bool) callback jsvalue"
    and fn_map :: "('k, 'v, 'u) callback jsvalue"
    and generator :: "('k \<Rightarrow> ('k, 'v) entries \<Rightarrow> 'w \<Rightarrow> 'v \<times> 'w) jsvalue"
  assumes "typeof fn_each \<noteq> ''function''"
    and "typeof fn \<noteq> ''function''"
    and "typeof fn_map \<noteq> ''function''"
    and "typeof generator \<noteq> ''function''"
  shows "each fn_each this h w
           = (Inl (GroupError ''fn parameter must be a valid function.'' fn_each), h, w)
       \<and> find_group fn this h
           = (Inl (GroupError ''fn parameter must be a valid function.'' fn), h)
       \<and> filter_group fn this h
           = (Inl (GroupError ''fn parameter must be a valid function.'' fn), h)
       \<and> map_group fn_map this h
           = (Inl (GroupError ''fn parameter must be a valid function.'' fn_map), h)
       \<and> findKey fn this h = (Inl (GroupError ''fn parameter must be a valid function.'' fn), h)
       \<and> every fn this h = (Inl (GroupError ''fn parameter must be a valid function.'' fn), h)
       \<and> some fn this h = (Inl (GroupError ''fn parameter must be a valid function.'' fn), h)
       \<and> sweep fn this h = (Inl (GroupError ''fn parameter must be a valid function.'' fn), h)
       \<and> fallback key generator this h w
           = (Inl (GroupError ''generator parameter must be a valid function'' generator), h, w)"
proof -
  have "each fn_each this h w
           = (Inl (GroupError ''fn parameter must be a valid function.'' fn_each), h, w)"
    using assms(1) by (cases fn_each) (simp_all add: each_def)
  moreover have "find_group fn this h
           = (Inl (GroupError ''fn parameter must be a valid function.'' fn), h)"
    and "filter_group fn this h
           = (Inl (GroupError ''fn parameter must be a valid function.'' fn), h)"
    and "findKey fn this h = (Inl (GroupError ''fn parameter must be a valid function.'' fn), h)"
    and "every fn this h = (Inl (GroupError ''fn parameter must be a valid function.'' fn), h)"
    and "some fn this h = (Inl (GroupError ''fn parameter must be a valid function.'' fn), h)"
    and "sweep fn this h = (Inl (GroupError ''fn parameter must be a valid function.'' fn), h)"
    using assms(2)
    by (cases fn; simp add: find_group_def filter_group_def findKey_def every_def some_def
          sweep_def)+
  moreover have "map_group fn_map this h
           = (Inl (GroupError ''fn parameter must be a valid function.'' fn_map), h)"
    using assms(3) by (cases fn_map) (simp_all add: map_group_def)
  moreover have "fallback key generator this h w
           = (Inl (GroupError ''generator parameter must be a valid function'' generator), h, w)"
    using assms(4) by (cases generator) (simp_all add: fallback_def)
  ultimately show ?thesis by simp
qed

theorem non_callable_rejected_witness:
  "typeof (Undefined :: (string, int, nat \<Rightarrow> nat) callback jsvalue) \<noteq> ''function''
   \<and> typeof (Number (Finite 3) :: (string, int, bool) callback jsvalue) \<noteq> ''function''
   \<and> typeof (String ''f'' :: (string, int, int) callback jsvalue) \<noteq> ''function''
   \<and> typeof (Null :: (string \<Rightarrow> (string, int) entries \<Rightarrow> nat \<Rightarrow> int \<times> nat) jsvalue) \<noteq> ''function''
   \<and> each (Undefined :: (string, int, nat \<Rightarrow> nat) callback jsvalue) 0
         [[Some (''a'', 1), Some (''b'', 2), Some (''c'', 3)]] 0
       = (Inl (GroupError ''fn parameter must be a valid function.'' Undefined),
          [[Some (''a'', 1), Some (''b'', 2), Some (''c'', 3)]], 0)
   \<and> sweep (Number (Finite 3)) 0 [[Some (''a'', 1::int), Some (''b'', 2), Some (''c'', 3)]]
       = (Inl (GroupError ''fn parameter must be a valid function.'' (Number (Finite 3))),
          [[Some (''a'', 1), Some (''b'', 2), Some (''c'', 3)]])
   \<and> map_group (String ''f'' :: (string, int, int) callback jsvalue) 0
         [[Some (''a'', 1), Some (''b'', 2), Some (''c'', 3)]]
       = (Inl (GroupError ''fn parameter must be a valid function.'' (String ''f'')),
          [[Some (''a'', 1), Some (''b'', 2), Some (''c'', 3)]])
   \<and> fallback ''d'' (Null :: (string \<Rightarrow> (string, int) entries \<Rightarrow> nat \<Rightarrow> int \<times> nat) jsvalue) 0
         [[Some (''a'', 1), Some (''b'', 2), Some (''c'', 3)]] 0
       = (Inl (GroupError ''generator parameter must be a valid function'' Null),
          [[Some (''a'', 1), Some (''b'', 2), Some (''c'', 3)]], 0)"
proof -
  have each_arg: "typeof (Undefined :: (string, int, nat \<Rightarrow> nat) callback jsvalue) \<noteq> ''function''"
    and pred_arg: "typeof (Number (Finite 3) :: (string, int, bool) callback jsvalue) \<noteq> ''function''"
    and map_arg: "typeof (String ''f'' :: (string, int, int) callback jsvalue) \<noteq> ''function''"
    and gen_arg: "typeof (Null :: (string \<Rightarrow> (string, int) entries \<Rightarrow> nat \<Rightarrow> int \<times> nat) jsvalue)
                    \<noteq> ''function''"
    by simp_all
  from non_callable_rejected [OF each_arg pred_arg map_arg gen_arg,
      of 0 "[[Some (''a'', 1), Some (''b'', 2), Some (''c'', 3)]]" 0 "''d''"]
  show ?thesis by simp
qed

end
